theory Spec2Isabelle
  imports Complex_Main "HOL-Library.Log_Nat"
begin

section \<open>Floating-point values\<close>

text \<open>
  The worker of \<^verbatim>\<open>BatchAudioNormalizer.py\<close> computes on NumPy arrays of type float32
  (the type \<^verbatim>\<open>librosa.load\<close> returns) and on Python floats, which are doubles. A value
  is modelled as a finite real number or one of the three special values of IEEE
  arithmetic, and every operation rounds its exact result to the format it computes in:
  to the nearest representable number, ties to even, with gradual underflow below the
  smallest normal number and overflow to infinity. NumPy reports overflow, division by
  zero and invalid operations by a warning, never by an exception. A Python float or
  int that meets a float32 value in an operation is converted to float32 first (the
  promotion rule of NumPy 2), so the result is a float32. The sign of zero is not
  modelled.
\<close>

datatype fl = Fin real | PInf | NInf | NaN

text \<open>The nearest integer, ties to even.\<close>

definition nearest_even :: "real \<Rightarrow> int" where
  "nearest_even x =
     (let f = \<lfloor>x\<rfloor>; r = x - of_int f
      in if r < 1 / 2 then f
         else if 1 / 2 < r then f + 1
         else if even f then f else f + 1)"

text \<open>
  Rounding to a binary format of \<open>prec\<close> significant bits whose smallest normal exponent
  is \<open>emin\<close>: the result is a multiple of the quantum \<open>2 powi q\<close>, where \<open>q\<close> follows the
  exponent of \<open>x\<close> and stops at \<open>emin - (prec - 1)\<close> for subnormal results. The exponent
  has no upper bound here; overflow is tested where the result is used.
\<close>

definition round_to :: "nat \<Rightarrow> int \<Rightarrow> real \<Rightarrow> real" where
  "round_to prec emin x =
     (if x = 0 then 0
      else let q = max (\<lfloor>log 2 \<bar>x\<bar>\<rfloor> - (int prec - 1)) (emin - (int prec - 1))
           in of_int (nearest_even (x / 2 powi q)) * 2 powi q)"

text \<open>binary32 (float32) and binary64 (the Python float).\<close>

definition round32 :: "real \<Rightarrow> real" where
  "round32 x = round_to 24 (- 126) x"

definition round64 :: "real \<Rightarrow> real" where
  "round64 x = round_to 53 (- 1022) x"

text \<open>
  The float32 value of an exact result: infinite when the rounded magnitude passes the
  largest finite float32, that is, reaches \<open>2 ^ 128\<close>.
\<close>

definition to_f32 :: "real \<Rightarrow> fl" where
  "to_f32 x =
     (let r = round32 x
      in if 2 ^ 128 \<le> r then PInf else if r \<le> - (2 ^ 128) then NInf else Fin r)"

text \<open>The four arithmetic operations on float32 values.\<close>

fun fadd :: "fl \<Rightarrow> fl \<Rightarrow> fl" where
  "fadd (Fin a) (Fin b) = to_f32 (a + b)"
| "fadd NaN _ = NaN"
| "fadd _ NaN = NaN"
| "fadd PInf NInf = NaN"
| "fadd NInf PInf = NaN"
| "fadd PInf _ = PInf"
| "fadd _ PInf = PInf"
| "fadd NInf _ = NInf"
| "fadd _ NInf = NInf"

fun fsub :: "fl \<Rightarrow> fl \<Rightarrow> fl" where
  "fsub (Fin a) (Fin b) = to_f32 (a - b)"
| "fsub NaN _ = NaN"
| "fsub _ NaN = NaN"
| "fsub PInf PInf = NaN"
| "fsub NInf NInf = NaN"
| "fsub PInf _ = PInf"
| "fsub _ PInf = NInf"
| "fsub NInf _ = NInf"
| "fsub _ NInf = PInf"

fun fmul :: "fl \<Rightarrow> fl \<Rightarrow> fl" where
  "fmul (Fin a) (Fin b) = to_f32 (a * b)"
| "fmul NaN _ = NaN"
| "fmul _ NaN = NaN"
| "fmul (Fin a) PInf = (if a = 0 then NaN else if 0 < a then PInf else NInf)"
| "fmul (Fin a) NInf = (if a = 0 then NaN else if 0 < a then NInf else PInf)"
| "fmul PInf (Fin b) = (if b = 0 then NaN else if 0 < b then PInf else NInf)"
| "fmul NInf (Fin b) = (if b = 0 then NaN else if 0 < b then NInf else PInf)"
| "fmul PInf PInf = PInf"
| "fmul PInf NInf = NInf"
| "fmul NInf PInf = NInf"
| "fmul NInf NInf = PInf"

fun fdiv :: "fl \<Rightarrow> fl \<Rightarrow> fl" where
  "fdiv (Fin a) (Fin b) =
     (if b = 0 then (if a = 0 then NaN else if 0 < a then PInf else NInf)
      else to_f32 (a / b))"
| "fdiv NaN _ = NaN"
| "fdiv _ NaN = NaN"
| "fdiv (Fin a) PInf = Fin 0"
| "fdiv (Fin a) NInf = Fin 0"
| "fdiv PInf (Fin b) = (if 0 \<le> b then PInf else NInf)"
| "fdiv NInf (Fin b) = (if 0 \<le> b then NInf else PInf)"
| "fdiv PInf PInf = NaN"
| "fdiv PInf NInf = NaN"
| "fdiv NInf PInf = NaN"
| "fdiv NInf NInf = NaN"

text \<open>
  \<^verbatim>\<open>np.abs\<close>, \<^verbatim>\<open>np.sqrt\<close>, \<^verbatim>\<open>np.log10\<close> and \<^verbatim>\<open>10 ** x\<close> on one float32 value. The
  absolute value is exact. The square root is correctly rounded; so are, in this model,
  the logarithm and the power of the C library.
\<close>

fun fabs :: "fl \<Rightarrow> fl" where
  "fabs (Fin a) = Fin \<bar>a\<bar>"
| "fabs PInf = PInf"
| "fabs NInf = PInf"
| "fabs NaN = NaN"

fun fsqrt :: "fl \<Rightarrow> fl" where
  "fsqrt (Fin a) = (if a < 0 then NaN else to_f32 (sqrt a))"
| "fsqrt PInf = PInf"
| "fsqrt NInf = NaN"
| "fsqrt NaN = NaN"

fun flog10 :: "fl \<Rightarrow> fl" where
  "flog10 (Fin a) = (if a = 0 then NInf else if a < 0 then NaN else to_f32 (log 10 a))"
| "flog10 PInf = PInf"
| "flog10 NInf = NaN"
| "flog10 NaN = NaN"

fun fpow10 :: "fl \<Rightarrow> fl" where
  "fpow10 (Fin a) = to_f32 (10 powr a)"
| "fpow10 PInf = PInf"
| "fpow10 NInf = Fin 0"
| "fpow10 NaN = NaN"

text \<open>The comparison \<^verbatim>\<open>x > 0\<close>: false on NaN.\<close>

fun fgt0 :: "fl \<Rightarrow> bool" where
  "fgt0 (Fin a) = (0 < a)"
| "fgt0 PInf = True"
| "fgt0 NInf = False"
| "fgt0 NaN = False"

text \<open>The maximum of two values as \<^verbatim>\<open>np.max\<close> folds it: NaN propagates.\<close>

fun fmax2 :: "fl \<Rightarrow> fl \<Rightarrow> fl" where
  "fmax2 (Fin a) (Fin b) = Fin (max a b)"
| "fmax2 NaN _ = NaN"
| "fmax2 _ NaN = NaN"
| "fmax2 PInf _ = PInf"
| "fmax2 _ PInf = PInf"
| "fmax2 NInf b = b"
| "fmax2 a NInf = a"

section \<open>Arrays and exceptions\<close>

text \<open>
  \<^verbatim>\<open>librosa.load\<close> returns a one-dimensional array for a single channel and a
  two-dimensional array indexed [channel][frame] otherwise; \<^verbatim>\<open>audio.ndim > 1\<close>
  tells them apart.
\<close>

datatype audio = Arr1 "fl list" | Arr2 "fl list list"

text \<open>An exception is modelled by the text that \<^verbatim>\<open>str(e)\<close> gives for it.\<close>

type_synonym exn = string

definition zero_size_max :: exn where
  "zero_size_max = ''zero-size array to reduction operation maximum which has no identity''"

definition index_out_of_bounds :: exn where
  "index_out_of_bounds = ''index out of bounds for axis 0''"

definition unbound_normalized_audio :: exn where
  "unbound_normalized_audio = ''local variable normalized_audio referenced before assignment''"

definition result_out_of_range :: exn where
  "result_out_of_range = ''(34, Numerical result out of range)''"

fun ndim :: "audio \<Rightarrow> nat" where
  "ndim (Arr1 xs) = 1"
| "ndim (Arr2 chs) = 2"

text \<open>All samples of an array, in row order.\<close>

fun samples :: "audio \<Rightarrow> fl list" where
  "samples (Arr1 xs) = xs"
| "samples (Arr2 chs) = concat chs"

text \<open>\<^verbatim>\<open>audio * gain\<close> for a float32 gain.\<close>

fun scale :: "fl \<Rightarrow> audio \<Rightarrow> audio" where
  "scale g (Arr1 xs) = Arr1 (map (\<lambda>s. fmul s g) xs)"
| "scale g (Arr2 chs) = Arr2 (map (map (\<lambda>s. fmul s g)) chs)"

text \<open>\<^verbatim>\<open>np.max\<close> raises ValueError on an array without elements.\<close>

fun np_max :: "fl list \<Rightarrow> exn + fl" where
  "np_max [] = Inl zero_size_max"
| "np_max (x # xs) = Inr (foldl fmax2 x xs)"

text \<open>
  The sum of a float32 array as NumPy's add reduction computes it, in float32. Fewer
  than 8 elements are added one after the other, starting from 0. Up to 128 elements are
  added in 8 interleaved accumulators that are then combined in pairs, and the at most 7
  elements left over are added one after the other. A longer array is split near its
  middle, at a multiple of 8, and the sums of the two parts are added.
\<close>

function accumulate8 :: "fl list \<Rightarrow> fl list \<Rightarrow> fl list \<times> fl list" where
  "accumulate8 r xs =
     (if length xs < 8 then (r, xs)
      else accumulate8 (map2 fadd r (take 8 xs)) (drop 8 xs))"
  by pat_completeness auto
termination
  by (relation "measure (\<lambda>(r, xs). length xs)") auto

declare accumulate8.simps [simp del]

definition block_sum :: "fl list \<Rightarrow> fl" where
  "block_sum xs =
     (case accumulate8 (take 8 xs) (drop 8 xs) of
        (r, rest) \<Rightarrow>
          foldl fadd
            (fadd (fadd (fadd (r ! 0) (r ! 1)) (fadd (r ! 2) (r ! 3)))
                  (fadd (fadd (r ! 4) (r ! 5)) (fadd (r ! 6) (r ! 7))))
            rest)"

function pairwise_sum :: "fl list \<Rightarrow> fl" where
  "pairwise_sum xs =
     (if length xs < 8 then foldl fadd (Fin 0) xs
      else if length xs \<le> 128 then block_sum xs
      else fadd (pairwise_sum (take (length xs div 2 - length xs div 2 mod 8) xs))
                (pairwise_sum (drop (length xs div 2 - length xs div 2 mod 8) xs)))"
  by pat_completeness auto
termination
  by (relation "measure length") (auto simp: min_def)

declare pairwise_sum.simps [simp del]

text \<open>
  \<^verbatim>\<open>np.mean\<close>: the float32 sum is divided by the count, an integer of NumPy's, in double
  precision, and the quotient is converted to float32; 0/0 = NaN on an empty array.
\<close>

fun mean_quotient :: "fl \<Rightarrow> nat \<Rightarrow> fl" where
  "mean_quotient (Fin s) n =
     (if n = 0 then (if s = 0 then NaN else if 0 < s then PInf else NInf)
      else to_f32 (round64 (s / real n)))"
| "mean_quotient PInf n = PInf"
| "mean_quotient NInf n = NInf"
| "mean_quotient NaN n = NaN"

definition np_mean :: "fl list \<Rightarrow> fl" where
  "np_mean xs = mean_quotient (pairwise_sum xs) (length xs)"

text \<open>\<^verbatim>\<open>np.sqrt(np.mean(x**2))\<close>.\<close>

definition rms :: "fl list \<Rightarrow> fl" where
  "rms xs = fsqrt (np_mean (map (\<lambda>s. fmul s s) xs))"

text \<open>\<^verbatim>\<open>np.mean(audio, axis=0)\<close> of a two-dimensional array: the mean of every frame.\<close>

definition mean_axis0 :: "fl list list \<Rightarrow> fl list" where
  "mean_axis0 chs = map np_mean (transpose chs)"

section \<open>The three normalization methods\<close>

text \<open>
  Lines 60 and 65, \<^verbatim>\<open>10 ** (self.target_level / 20.0)\<close>, on Python floats: both
  operations round to double, and the power raises OverflowError when its result
  passes the largest double.
\<close>

definition target_amplitude :: "real \<Rightarrow> exn + real" where
  "target_amplitude level =
     (let t = round64 (10 powr round64 (level / 20))
      in if 2 ^ 1024 \<le> t then Inl result_out_of_range else Inr t)"

text \<open>
  Lines 53 to 61. Both branches of the test on \<^verbatim>\<open>audio.ndim\<close> compute the same
  expression, the maximum over all channels and frames. The Python float
  \<^verbatim>\<open>target_amplitude\<close> meets the float32 value \<^verbatim>\<open>max_amplitude\<close> and is converted to
  float32, so the gain is a float32 quotient.
\<close>

definition max_amplitude :: "audio \<Rightarrow> exn + fl" where
  "max_amplitude a =
     (if ndim a > 1 then np_max (map fabs (samples a)) else np_max (map fabs (samples a)))"

definition normalize_peak :: "real \<Rightarrow> audio \<Rightarrow> exn + audio" where
  "normalize_peak level a =
     (case max_amplitude a of
        Inl e \<Rightarrow> Inl e
      | Inr m \<Rightarrow>
          (case target_amplitude level of
             Inl e \<Rightarrow> Inl e
           | Inr t \<Rightarrow> Inr (if fgt0 m then scale (fdiv (to_f32 t) m) a else a)))"

text \<open>
  Lines 63 to 78. A two-dimensional array is read at rows 0 and 1 only. The gain of a
  channel whose measured RMS is not positive is the Python float 1.0.
\<close>

definition rms_gain :: "real \<Rightarrow> fl \<Rightarrow> fl" where
  "rms_gain target_rms current_rms =
     (if fgt0 current_rms then fdiv (to_f32 target_rms) current_rms else Fin 1)"

definition normalize_rms :: "real \<Rightarrow> audio \<Rightarrow> exn + audio" where
  "normalize_rms level a =
     (case target_amplitude level of
        Inl e \<Rightarrow> Inl e
      | Inr target_rms \<Rightarrow>
          (case a of
             Arr2 chs \<Rightarrow>
               (case chs of
                  left # right # _ \<Rightarrow>
                    Inr (Arr2 [map (\<lambda>s. fmul s (rms_gain target_rms (rms left))) left,
                               map (\<lambda>s. fmul s (rms_gain target_rms (rms right))) right])
                | _ \<Rightarrow> Inl index_out_of_bounds)
           | Arr1 xs \<Rightarrow> Inr (scale (rms_gain target_rms (rms xs)) (Arr1 xs))))"

text \<open>Lines 80 to 93. The measurement has no test for silence.\<close>

definition mono_audio :: "audio \<Rightarrow> fl list" where
  "mono_audio a = (case a of Arr2 chs \<Rightarrow> mean_axis0 chs | Arr1 xs \<Rightarrow> xs)"

definition current_loudness :: "audio \<Rightarrow> fl" where
  "current_loudness a = fsub (fmul (Fin 20) (flog10 (rms (mono_audio a)))) (Fin 23)"

definition loudness_gain :: "real \<Rightarrow> audio \<Rightarrow> fl" where
  "loudness_gain level a = fpow10 (fdiv (fsub (to_f32 level) (current_loudness a)) (Fin 20))"

definition normalize_loudness :: "real \<Rightarrow> audio \<Rightarrow> exn + audio" where
  "normalize_loudness level a = Inr (scale (loudness_gain level a) a)"

text \<open>
  The chain of tests on \<^verbatim>\<open>self.normalize_method\<close>. Under any other method name
  no branch runs and \<^verbatim>\<open>normalized_audio\<close> stays unbound: the result \<open>None\<close>.
\<close>

definition normalize :: "string \<Rightarrow> real \<Rightarrow> audio \<Rightarrow> exn + audio option" where
  "normalize method level a =
     (if method = ''peak'' then map_sum id Some (normalize_peak level a)
      else if method = ''rms'' then map_sum id Some (normalize_rms level a)
      else if method = ''loudness'' then map_sum id Some (normalize_loudness level a)
      else Inr None)"

section \<open>The progress percentage\<close>

text \<open>
  Line 118, \<^verbatim>\<open>int((i + 1) / total_files * 100)\<close>, works on Python floats: the quotient
  of the two integers is rounded to the nearest double, the product with 100 is rounded
  again, and \<^verbatim>\<open>int\<close> truncates. Here the rounding is part of the model: \<open>round53\<close>
  rounds a rational to 53 significant bits, ties to even. It has no exponent bounds, so
  it is the rounding of binary64 wherever neither overflow nor underflow occurs, as for
  the values of this line.
\<close>

definition ilog2 :: "rat \<Rightarrow> int" where
  "ilog2 q =
     (let d = bitlen (fst (quotient_of q)) - bitlen (snd (quotient_of q))
      in if 2 powi d \<le> q then d else d - 1)"

definition rne :: "rat \<Rightarrow> int" where
  "rne x =
     (let f = \<lfloor>x\<rfloor>; r = x - of_int f
      in if r < 1 / 2 then f
         else if 1 / 2 < r then f + 1
         else if even f then f else f + 1)"

definition round53 :: "rat \<Rightarrow> rat" where
  "round53 q =
     (if q = 0 then 0
      else sgn q * of_int (rne (\<bar>q\<bar> / 2 powi (ilog2 \<bar>q\<bar> - 52))) * 2 powi (ilog2 \<bar>q\<bar> - 52))"

definition progress_percent :: "nat \<Rightarrow> nat \<Rightarrow> int" where
  "progress_percent total_files i =
     \<lfloor>round53 (round53 (of_nat (i + 1) / of_nat total_files) * 100)\<rfloor>"

definition division_by_zero :: exn where
  "division_by_zero = ''division by zero''"

definition progress :: "nat \<Rightarrow> nat \<Rightarrow> exn + int" where
  "progress total_files i =
     (if total_files = 0 then Inl division_by_zero else Inr (progress_percent total_files i))"

section \<open>The worker\<close>

text \<open>The three signals of \<^verbatim>\<open>AudioNormalizerWorker\<close>, lines 20 to 22.\<close>

datatype event = ProgressUpdated int | FileProcessed string | Finished

text \<open>The fields that \<^verbatim>\<open>__init__\<close> stores and \<^verbatim>\<open>run\<close> only reads.\<close>

record worker =
  input_files :: "string list"
  output_folder :: string
  target_format :: string
  target_level :: real
  normalize_method :: string
  bit_depth :: int
  stereo :: bool
  sample_rate :: int

text \<open>
  What a run changes: the flag \<^verbatim>\<open>is_running\<close>, the signals emitted so far, and the
  paths that exist on disk.
\<close>

record worker_state =
  is_running :: bool
  emitted :: "event list"
  disk :: "string set"

datatype segment = AudioSegment string

text \<open>
  The library calls of \<^verbatim>\<open>run\<close>. Each is a parameter of the model that gives the
  call's outcome from its arguments: a value, or the exception raised. A write that
  raises is taken to leave the disk as it was.
\<close>

record env =
  basename :: "string \<Rightarrow> string"
  splitext :: "string \<Rightarrow> string"
  path_join :: "string \<Rightarrow> string \<Rightarrow> string"
  librosa_load :: "string \<Rightarrow> bool \<Rightarrow> exn + audio \<times> int"
  librosa_resample :: "audio \<Rightarrow> int \<Rightarrow> int \<Rightarrow> exn + audio"
  sf_write :: "string \<Rightarrow> audio \<Rightarrow> int \<Rightarrow> int option \<Rightarrow> exn option"
  from_wav :: "string \<Rightarrow> exn + segment"
  segment_export :: "segment \<Rightarrow> string \<Rightarrow> string \<Rightarrow> int \<Rightarrow> exn option"
  os_remove :: "string \<Rightarrow> exn option"

text \<open>\<^verbatim>\<open>x.T\<close>: the transpose of a two-dimensional array.\<close>

fun array_T :: "audio \<Rightarrow> audio" where
  "array_T (Arr1 xs) = Arr1 xs"
| "array_T (Arr2 chs) = Arr2 (transpose chs)"

text \<open>Reading the local variable \<^verbatim>\<open>normalized_audio\<close>.\<close>

definition read_normalized :: "audio option \<Rightarrow> exn + audio" where
  "read_normalized v = (case v of None \<Rightarrow> Inl unbound_normalized_audio | Some a \<Rightarrow> Inr a)"

text \<open>Lines 96 and 97.\<close>

definition resample_if_needed ::
  "env \<Rightarrow> worker \<Rightarrow> audio option \<Rightarrow> int \<Rightarrow> exn + audio option" where
  "resample_if_needed e w normalized sr =
     (if sr \<noteq> sample_rate w then
        (case read_normalized normalized of
           Inl x \<Rightarrow> Inl x
         | Inr a \<Rightarrow> map_sum id Some (librosa_resample e a sr (sample_rate w)))
      else Inr normalized)"

text \<open>
  Lines 104 to 115, the mp3 branch. \<^verbatim>\<open>os.remove\<close> is its last statement: an exception
  of \<^verbatim>\<open>from_wav\<close> or \<^verbatim>\<open>export\<close> leaves the branch before it.
\<close>

definition encode_mp3 ::
  "env \<Rightarrow> worker \<Rightarrow> string \<Rightarrow> string \<Rightarrow> audio \<Rightarrow> string set \<Rightarrow> exn option \<times> string set" where
  "encode_mp3 e w base_name output_file samples_out fs =
     (let temp_wav = path_join e (output_folder w) (base_name @ ''_temp.wav'')
      in case sf_write e temp_wav samples_out (sample_rate w) None of
           Some x \<Rightarrow> (Some x, fs)
         | None \<Rightarrow>
             (case from_wav e temp_wav of
                Inl x \<Rightarrow> (Some x, insert temp_wav fs)
              | Inr audio_segment \<Rightarrow>
                  (case segment_export e audio_segment output_file ''mp3'' (bit_depth w * 8) of
                     Some x \<Rightarrow> (Some x, insert temp_wav fs)
                   | None \<Rightarrow>
                       (case os_remove e temp_wav of
                          Some x \<Rightarrow> (Some x, insert output_file (insert temp_wav fs))
                        | None \<Rightarrow> (None, insert output_file (insert temp_wav fs) - {temp_wav})))))"

text \<open>Lines 99 to 115. Under a format outside the four names nothing is written.\<close>

definition save_audio ::
  "env \<Rightarrow> worker \<Rightarrow> string \<Rightarrow> string \<Rightarrow> audio \<Rightarrow> audio option \<Rightarrow> string set
     \<Rightarrow> exn option \<times> string set" where
  "save_audio e w base_name output_file a normalized fs =
     (if target_format w \<in> set [''wav'', ''flac'', ''ogg''] then
        (case read_normalized normalized of
           Inl x \<Rightarrow> (Some x, fs)
         | Inr n \<Rightarrow>
             (case sf_write e output_file (if ndim a > 1 then array_T n else n) (sample_rate w)
                     (if target_format w = ''wav'' then Some (bit_depth w) else None) of
                Some x \<Rightarrow> (Some x, fs)
              | None \<Rightarrow> (None, insert output_file fs)))
      else if target_format w = ''mp3'' then
        (case read_normalized normalized of
           Inl x \<Rightarrow> (Some x, fs)
         | Inr n \<Rightarrow> encode_mp3 e w base_name output_file (if ndim a > 1 then array_T n else n) fs)
      else (None, fs))"

text \<open>
  Lines 45 to 115: the statements of the \<^verbatim>\<open>try\<close> block before the signals. The
  result is the exception that left the block, if any, and the disk afterwards.
\<close>

definition process_file :: "env \<Rightarrow> worker \<Rightarrow> string \<Rightarrow> string set \<Rightarrow> exn option \<times> string set" where
  "process_file e w file_path fs =
     (let file_name = basename e file_path;
          base_name = splitext e file_name;
          output_file = path_join e (output_folder w) (base_name @ ''.'' @ target_format w)
      in case librosa_load e file_path (\<not> stereo w) of
           Inl x \<Rightarrow> (Some x, fs)
         | Inr (a, sr) \<Rightarrow>
             (case normalize (normalize_method w) (target_level w) a of
                Inl x \<Rightarrow> (Some x, fs)
              | Inr normalized \<Rightarrow>
                  (case resample_if_needed e w normalized sr of
                     Inl x \<Rightarrow> (Some x, fs)
                   | Inr resampled \<Rightarrow> save_audio e w base_name output_file a resampled fs)))"

definition error_label :: "string \<Rightarrow> exn \<Rightarrow> string" where
  "error_label file_name x = ''ERROR: '' @ file_name @ '' - '' @ x"

text \<open>
  One pass through the loop body, lines 44 to 124: the \<^verbatim>\<open>try\<close> block with its two
  signals on success, the handler with its one signal otherwise. (The handler's
  \<^verbatim>\<open>print\<close> is not a signal and is left out.)
\<close>

definition iteration :: "env \<Rightarrow> worker \<Rightarrow> nat \<Rightarrow> nat \<Rightarrow> string \<Rightarrow> worker_state \<Rightarrow> worker_state" where
  "iteration e w total_files i file_path st =
     (let file_name = basename e file_path
      in case process_file e w file_path (disk st) of
           (Some x, fs) \<Rightarrow>
             st\<lparr>emitted := emitted st @ [FileProcessed (error_label file_name x)], disk := fs\<rparr>
         | (None, fs) \<Rightarrow>
             (case progress total_files i of
                Inl x \<Rightarrow>
                  st\<lparr>emitted := emitted st @ [FileProcessed (error_label file_name x)], disk := fs\<rparr>
              | Inr p \<Rightarrow>
                  st\<lparr>emitted := emitted st @ [ProgressUpdated p, FileProcessed file_name],
                     disk := fs\<rparr>))"

text \<open>Lines 128 and 129.\<close>

definition stop :: "worker_state \<Rightarrow> worker_state" where
  "stop st = st\<lparr>is_running := False\<rparr>"

text \<open>
  The loop of lines 40 to 124 from index \<open>i\<close> on. \<^verbatim>\<open>stop\<close> is called from the
  controlling thread; \<open>stop_before i\<close> tells whether such a call arrived before the
  loop's test of the flag at index \<open>i\<close> (and after the test at index \<open>i - 1\<close>).
\<close>

fun run_loop ::
  "env \<Rightarrow> worker \<Rightarrow> (nat \<Rightarrow> bool) \<Rightarrow> nat \<Rightarrow> nat \<Rightarrow> string list \<Rightarrow> worker_state \<Rightarrow> worker_state" where
  "run_loop e w stop_before total_files i [] st = st"
| "run_loop e w stop_before total_files i (file_path # rest) st =
     (let st1 = (if stop_before i then stop st else st)
      in if \<not> is_running st1 then st1
         else run_loop e w stop_before total_files (Suc i) rest
                (iteration e w total_files i file_path st1))"

text \<open>Lines 38 to 126.\<close>

definition run :: "env \<Rightarrow> worker \<Rightarrow> (nat \<Rightarrow> bool) \<Rightarrow> worker_state \<Rightarrow> worker_state" where
  "run e w stop_before st =
     (let st' = run_loop e w stop_before (length (input_files w)) 0 (input_files w) st
      in st'\<lparr>emitted := emitted st' @ [Finished]\<rparr>)"

text \<open>The state that \<^verbatim>\<open>__init__\<close> leaves, on a disk holding \<open>fs\<close>.\<close>

definition init_state :: "string set \<Rightarrow> worker_state" where
  "init_state fs = \<lparr>is_running = True, emitted = [], disk = fs\<rparr>"

text \<open>The labels of the \<^verbatim>\<open>file_processed\<close> signals and the values of the
  \<^verbatim>\<open>progress_updated\<close> signals of an event list, in order.\<close>

fun labels :: "event list \<Rightarrow> string list" where
  "labels [] = []"
| "labels (FileProcessed l # evs) = l # labels evs"
| "labels (ev # evs) = labels evs"

fun percents :: "event list \<Rightarrow> int list" where
  "percents [] = []"
| "percents (ProgressUpdated p # evs) = p # percents evs"
| "percents (ev # evs) = percents evs"

text \<open>Whether the \<^verbatim>\<open>try\<close> block of a file is left by an exception; the disk does not
  enter the outcome.\<close>

definition failure :: "env \<Rightarrow> worker \<Rightarrow> string \<Rightarrow> exn option" where
  "failure e w file_path = fst (process_file e w file_path {})"

section \<open>A sample job\<close>

text \<open>
  Library calls that all succeed on simple file names, for evaluating the worker on
  concrete runs.
\<close>

definition sample_env :: env where
  "sample_env =
     \<lparr>basename = (\<lambda>p. p),
      splitext = takeWhile (\<lambda>c. c \<noteq> CHR ''.''),
      path_join = (\<lambda>d f. d @ ''/'' @ f),
      librosa_load = (\<lambda>p m. Inr (Arr1 [Fin (1 / 4), Fin (- 1 / 8)], 44100)),
      librosa_resample = (\<lambda>a r r'. Inr a),
      sf_write = (\<lambda>p a r s. None),
      from_wav = (\<lambda>p. Inr (AudioSegment p)),
      segment_export = (\<lambda>s p f b. None),
      os_remove = (\<lambda>p. None)\<rparr>"

definition sample_worker :: "string list \<Rightarrow> string \<Rightarrow> worker" where
  "sample_worker paths fmt =
     \<lparr>input_files = paths, output_folder = ''out'', target_format = fmt, target_level = - 5,
      normalize_method = ''peak'', bit_depth = 16, stereo = True, sample_rate = 44100\<rparr>"

text \<open>The same calls when the mp3 transcoder is missing, and when one file is corrupt.\<close>

definition no_transcoder_env :: env where
  "no_transcoder_env = sample_env\<lparr>segment_export := (\<lambda>s p f b. Some ''ffmpeg not found'')\<rparr>"

definition corrupt_env :: "string \<Rightarrow> env" where
  "corrupt_env bad =
     sample_env\<lparr>librosa_load :=
       (\<lambda>p m. if p = bad then Inl ''corrupt file''
              else Inr (Arr1 [Fin (1 / 4), Fin (- 1 / 8)], 44100))\<rparr>"

text \<open>
  The signals of one pass through the loop body, as a function of the outcome of the
  \<^verbatim>\<open>try\<close> block alone (lemma \<open>emitted_iteration\<close> relates it to \<open>iteration\<close>).
\<close>

definition pass_events :: "env \<Rightarrow> worker \<Rightarrow> nat \<Rightarrow> nat \<Rightarrow> string \<Rightarrow> event list" where
  "pass_events e w n i p =
     (case failure e w p of
        Some x \<Rightarrow> [FileProcessed (error_label (basename e p) x)]
      | None \<Rightarrow>
          (case progress n i of
             Inl x \<Rightarrow> [FileProcessed (error_label (basename e p) x)]
           | Inr pc \<Rightarrow> [ProgressUpdated pc, FileProcessed (basename e p)]))"



section \<open>Properties of the normalization methods\<close>

text \<open>Evaluating the rounding: exponents, representable numbers, bounds.\<close>

lemma powr_of_int_2: "(2::real) powr of_int k = 2 powi k"
  by (simp add: powr_real_of_int power_int_def power_one_over inverse_eq_divide)

lemma floor_log2_eqI:
  assumes "2 powi k \<le> x" and "x < 2 powi (k + 1)"
  shows "\<lfloor>log 2 x\<rfloor> = k"
proof -
  have "(0::real) < 2 powi k" by simp
  with assms(1) have x: "0 < x" by linarith
  have lo: "of_int k \<le> log 2 x"
    using assms(1) x by (simp add: le_log_iff powr_of_int_2)
  have "log 2 x < of_int (k + 1)"
    using assms(2) x by (simp only: log_less_iff [of 2 x] powr_of_int_2)
  then have hi: "log 2 x < of_int k + 1" by simp
  from lo hi show ?thesis by (rule floor_unique)
qed

lemma nearest_even_of_int: "nearest_even (of_int m) = m"
  by (simp add: nearest_even_def)

lemma nearest_even_bound:
  assumes "\<bar>x\<bar> \<le> of_int M"
  shows "\<bar>nearest_even x\<bar> \<le> M"
proof -
  have f1: "of_int \<lfloor>x\<rfloor> \<le> x" and f2: "x < of_int \<lfloor>x\<rfloor> + 1" by linarith+
  from assms have up: "x \<le> of_int M" and lo: "- of_int M \<le> x" by linarith+
  from up have fu: "\<lfloor>x\<rfloor> \<le> M" by (simp add: floor_le_iff)
  from lo have "of_int (- M) \<le> x" by simp
  then have fl: "- M \<le> \<lfloor>x\<rfloor>" by (simp only: le_floor_iff)
  have strict: "\<lfloor>x\<rfloor> + 1 \<le> M" if "of_int \<lfloor>x\<rfloor> < x"
  proof -
    from that up have "of_int \<lfloor>x\<rfloor> < (of_int M :: real)" by linarith
    then have "\<lfloor>x\<rfloor> < M" by (simp only: of_int_less_iff)
    then show ?thesis by simp
  qed
  show ?thesis
  proof (cases "x - of_int \<lfloor>x\<rfloor> < 1 / 2")
    case True
    then have "nearest_even x = \<lfloor>x\<rfloor>" by (simp add: nearest_even_def Let_def)
    with fu fl show ?thesis by simp
  next
    case False
    then have "of_int \<lfloor>x\<rfloor> < x" by linarith
    from strict [OF this] have s: "\<lfloor>x\<rfloor> + 1 \<le> M" .
    have "nearest_even x = \<lfloor>x\<rfloor> \<or> nearest_even x = \<lfloor>x\<rfloor> + 1"
      by (simp add: nearest_even_def Let_def)
    with s fl show ?thesis by auto
  qed
qed

lemma round_to_eval:
  assumes "x \<noteq> 0" and "\<lfloor>log 2 \<bar>x\<bar>\<rfloor> = k"
  shows "round_to prec emin x
       = of_int (nearest_even (x / 2 powi max (k - (int prec - 1)) (emin - (int prec - 1))))
           * 2 powi max (k - (int prec - 1)) (emin - (int prec - 1))"
  using assms by (simp add: round_to_def Let_def)

lemma round_to_exact:
  assumes x: "x = of_int m * 2 powi e" and m: "\<bar>m\<bar> < 2 ^ prec"
    and e: "emin - (int prec - 1) \<le> e"
  shows "round_to prec emin x = x"
proof (cases "m = 0")
  case True
  with x show ?thesis by (simp add: round_to_def)
next
  case False
  then have x0: "x \<noteq> 0" by (simp add: x)
  define k where "k = \<lfloor>log 2 \<bar>x\<bar>\<rfloor>"
  define q where "q = max (k - (int prec - 1)) (emin - (int prec - 1))"
  have "\<bar>x\<bar> = of_int \<bar>m\<bar> * 2 powi e" by (simp add: x abs_mult)
  also have "\<dots> < of_int (2 ^ prec) * 2 powi e"
    using m by (intro mult_strict_right_mono) (simp_all only: of_int_less_iff zero_less_power_int zero_less_numeral)
  also have "\<dots> = 2 powi (int prec + e)" by (simp add: power_int_add)
  finally have "\<bar>x\<bar> < 2 powr of_int (int prec + e)" by (simp only: powr_of_int_2)
  then have "log 2 \<bar>x\<bar> < of_int (int prec + e)"
    using x0 by (simp only: log_less_iff [of 2 "\<bar>x\<bar>"])
  then have "k < int prec + e" by (simp only: k_def floor_less_iff)
  with e have qe: "q \<le> e" by (simp add: q_def)
  have "x / 2 powi q = of_int m * 2 powi (e - q)"
    by (simp add: x power_int_diff)
  also have "\<dots> = of_int (m * 2 ^ nat (e - q))"
    using qe by (simp add: power_int_def)
  finally have "nearest_even (x / 2 powi q) = m * 2 ^ nat (e - q)"
    by (simp only: nearest_even_of_int)
  then have "round_to prec emin x = of_int (m * 2 ^ nat (e - q)) * 2 powi q"
    using x0 by (simp add: round_to_def Let_def k_def q_def)
  also have "\<dots> = of_int m * (2 powi (e - q) * 2 powi q)"
    using qe by (simp add: power_int_def)
  also have "2 powi (e - q) * (2::real) powi q = 2 powi e"
    by (simp add: power_int_add [symmetric])
  finally show ?thesis by (simp add: x)
qed

lemma round_to_le_one:
  assumes "\<bar>x\<bar> \<le> 1" and "0 < prec" and "emin \<le> 0"
  shows "\<bar>round_to prec emin x\<bar> \<le> 1"
proof (cases "x = 0")
  case True
  then show ?thesis by (simp add: round_to_def)
next
  case False
  define k where "k = \<lfloor>log 2 \<bar>x\<bar>\<rfloor>"
  define q where "q = max (k - (int prec - 1)) (emin - (int prec - 1))"
  have "log 2 \<bar>x\<bar> \<le> 0" using assms(1) False by simp
  then have "k \<le> 0" by (simp add: k_def floor_le_iff)
  with assms(2,3) have q: "q \<le> 0" by (simp add: q_def)
  have p: "(2::real) powi q = 1 / 2 ^ nat (- q)" using q by (simp add: power_int_def field_simps)
  have "\<bar>x / 2 powi q\<bar> = \<bar>x\<bar> * 2 ^ nat (- q)" by (simp add: p abs_mult)
  also have "\<dots> \<le> 1 * 2 ^ nat (- q)" using assms(1) by (intro mult_right_mono) simp_all
  finally have "\<bar>x / 2 powi q\<bar> \<le> of_int (2 ^ nat (- q))" by simp
  then have "\<bar>nearest_even (x / 2 powi q)\<bar> \<le> 2 ^ nat (- q)" by (rule nearest_even_bound)
  then have "\<bar>of_int (nearest_even (x / 2 powi q)) :: real\<bar> \<le> of_int (2 ^ nat (- q))"
    by (simp only: of_int_abs [symmetric] of_int_le_iff)
  then have "\<bar>of_int (nearest_even (x / 2 powi q)) * 2 powi q\<bar> \<le> (1::real)"
    by (simp add: p abs_mult field_simps)
  then show ?thesis using False by (simp add: round_to_def Let_def k_def q_def)
qed

lemma round32_exact:
  "x = of_int m * 2 powi e \<Longrightarrow> \<bar>m\<bar> < 2 ^ 24 \<Longrightarrow> - 149 \<le> e \<Longrightarrow> round32 x = x"
  unfolding round32_def by (rule round_to_exact) simp_all

lemma round64_exact:
  "x = of_int m * 2 powi e \<Longrightarrow> \<bar>m\<bar> < 2 ^ 53 \<Longrightarrow> - 1074 \<le> e \<Longrightarrow> round64 x = x"
  unfolding round64_def by (rule round_to_exact) simp_all

lemma round32_0: "round32 0 = 0"
  by (simp add: round32_def round_to_def)

lemma round64_0: "round64 0 = 0"
  by (simp add: round64_def round_to_def)

lemma to_f32_0: "to_f32 0 = Fin 0"
  by (simp add: to_f32_def round32_0)

lemma to_f32_exact:
  assumes "round32 x = x" and "\<bar>x\<bar> < 2 ^ 128"
  shows "to_f32 x = Fin x"
  using assms by (simp add: to_f32_def Let_def abs_less_iff not_le)

lemma round32_1: "round32 1 = 1"
  by (rule round32_exact [where m = 1 and e = 0]) simp_all

lemma round32_2: "round32 2 = 2"
  by (rule round32_exact [where m = 2 and e = 0]) simp_all

lemma round32_m5: "round32 (- 5) = - 5"
  by (rule round32_exact [where m = "- 5" and e = 0]) simp_all

lemma round32_half: "round32 (1 / 2) = 1 / 2"
  by (rule round32_exact [where m = 1 and e = "- 1"]) simp_all

lemma round32_quarter: "round32 (1 / 4) = 1 / 4"
  by (rule round32_exact [where m = 1 and e = "- 2"]) simp_all

lemma round64_quarter: "round64 (1 / 4) = 1 / 4"
  by (rule round64_exact [where m = 1 and e = "- 2"]) simp_all

lemma round64_m_quarter: "round64 (- (1 / 4)) = - (1 / 4)"
  by (rule round64_exact [where m = "- 1" and e = "- 2"]) simp_all

lemma round64_1: "round64 1 = 1"
  by (rule round64_exact [where m = 1 and e = 0]) simp_all

lemma to_f32_1: "to_f32 1 = Fin 1"
  by (rule to_f32_exact) (simp_all add: round32_1)

lemma to_f32_2: "to_f32 2 = Fin 2"
  by (rule to_f32_exact) (simp_all add: round32_2)

lemma to_f32_m5: "to_f32 (- 5) = Fin (- 5)"
  by (rule to_f32_exact) (simp_all add: round32_m5)

lemma to_f32_half: "to_f32 (1 / 2) = Fin (1 / 2)"
  by (rule to_f32_exact) (simp_all add: round32_half)

lemma to_f32_quarter: "to_f32 (1 / 4) = Fin (1 / 4)"
  by (rule to_f32_exact) (simp_all add: round32_quarter)

lemma target_amplitude_0: "target_amplitude 0 = Inr 1"
  by (simp add: target_amplitude_def round64_0 round64_1)

lemma target_amplitude_m5: "target_amplitude (- 5) = Inr (round64 (10 powr (- (1 / 4))))"
proof -
  have "(10::real) powr (- (1 / 4)) \<le> 10 powr 0" by (intro powr_mono) simp_all
  then have "\<bar>(10::real) powr (- (1 / 4))\<bar> \<le> 1" by simp
  then have "\<bar>round64 (10 powr (- (1 / 4)))\<bar> \<le> 1"
    unfolding round64_def by (rule round_to_le_one) simp_all
  then have "\<not> 2 ^ 1024 \<le> round64 (10 powr (- (1 / 4)))" by simp
  then show ?thesis by (simp add: target_amplitude_def round64_m_quarter)
qed

lemma pairwise_sum_short: "length xs < 8 \<Longrightarrow> pairwise_sum xs = foldl fadd (Fin 0) xs"
  by (simp add: pairwise_sum.simps)

text \<open>
  Claim C1. On the silent buffer [0, 0] the peak and RMS methods return the buffer as it
  is; the loudness method takes the logarithm of the zero RMS, gets an infinite gain and
  returns NaN for every sample.
\<close>

theorem loudness_silence_nan:
  "normalize ''loudness'' (- 5) (Arr1 [Fin 0, Fin 0]) = Inr (Some (Arr1 [NaN, NaN]))
   \<and> normalize ''peak'' (- 5) (Arr1 [Fin 0, Fin 0]) = Inr (Some (Arr1 [Fin 0, Fin 0]))
   \<and> normalize ''rms'' (- 5) (Arr1 [Fin 0, Fin 0]) = Inr (Some (Arr1 [Fin 0, Fin 0]))"
proof -
  have r: "rms [Fin 0, Fin 0] = Fin 0"
    by (simp add: rms_def np_mean_def pairwise_sum_short to_f32_0 round64_0)
  have l: "normalize ''loudness'' (- 5) (Arr1 [Fin 0, Fin 0]) = Inr (Some (Arr1 [NaN, NaN]))"
    by (simp add: normalize_def normalize_loudness_def loudness_gain_def current_loudness_def
        mono_audio_def r to_f32_m5)
  have p: "normalize ''peak'' (- 5) (Arr1 [Fin 0, Fin 0]) = Inr (Some (Arr1 [Fin 0, Fin 0]))"
    by (simp add: normalize_def normalize_peak_def max_amplitude_def target_amplitude_m5)
  have m: "normalize ''rms'' (- 5) (Arr1 [Fin 0, Fin 0]) = Inr (Some (Arr1 [Fin 0, Fin 0]))"
    by (simp add: normalize_def normalize_rms_def rms_gain_def r target_amplitude_m5 to_f32_0)
  from l p m show ?thesis by simp
qed

lemma round_to_value:
  assumes "2 powi k \<le> \<bar>x\<bar>" and "\<bar>x\<bar> < 2 powi (k + 1)"
    and "q = max (k - (int prec - 1)) (emin - (int prec - 1))"
    and "nearest_even (x / 2 powi q) = n"
    and "y = of_int n * 2 powi q"
  shows "round_to prec emin x = y"
proof -
  have "(0::real) < 2 powi k" by simp
  with assms(1) have "0 < \<bar>x\<bar>" by linarith
  then have "x \<noteq> 0" by simp
  moreover have "\<lfloor>log 2 \<bar>x\<bar>\<rfloor> = k" using assms(1,2) by (rule floor_log2_eqI)
  ultimately show ?thesis using assms(3,4,5) by (simp add: round_to_def Let_def)
qed

lemma round64_tenth: "round64 (1 / 10) = 7205759403792794 / 2 ^ 56"
  unfolding round64_def
  by (rule round_to_value [where k = "- 4" and q = "- 56" and n = 7205759403792794])
    (simp_all add: nearest_even_def Let_def)

lemma target_amplitude_m20: "target_amplitude (- 20) = Inr (7205759403792794 / 2 ^ 56)"
proof -
  have a: "round64 (- 1) = - 1"
    by (rule round64_exact [where m = "- 1" and e = 0]) simp_all
  have b: "(10::real) powr (- 1) = 1 / 10" by (simp add: powr_minus inverse_eq_divide)
  show ?thesis using round64_tenth by (simp add: target_amplitude_def a b)
qed

lemma round32_tenth: "round32 (7205759403792794 / 2 ^ 56) = 13421773 / 2 ^ 27"
  unfolding round32_def
  by (rule round_to_value [where k = "- 4" and q = "- 27" and n = 13421773])
    (simp_all add: nearest_even_def Let_def)

lemma to_f32_tenth: "to_f32 (7205759403792794 / 2 ^ 56) = Fin (13421773 / 2 ^ 27)"
  using round32_tenth by (simp add: to_f32_def)

lemma to_f32_fifth: "to_f32 (13421773 / 2 ^ 26) = Fin (13421773 / 2 ^ 26)"
  by (rule to_f32_exact, rule round32_exact [where m = 13421773 and e = "- 26"]) simp_all

lemma to_f32_tenth32: "to_f32 (13421773 / 2 ^ 27) = Fin (13421773 / 2 ^ 27)"
  by (rule to_f32_exact, rule round32_exact [where m = 13421773 and e = "- 27"]) simp_all

lemma to_f32_m_tenth32: "to_f32 (- (13421773 / 2 ^ 27)) = Fin (- (13421773 / 2 ^ 27))"
  by (rule to_f32_exact, rule round32_exact [where m = "- 13421773" and e = "- 27"]) simp_all

lemma to_f32_twentieth: "to_f32 (13421773 / 2 ^ 28) = Fin (13421773 / 2 ^ 28)"
  by (rule to_f32_exact, rule round32_exact [where m = 13421773 and e = "- 28"]) simp_all

lemma to_f32_2_130: "to_f32 (2 ^ 130) = PInf"
proof -
  have "round32 (2 ^ 130) = 2 ^ 130"
    by (rule round32_exact [where m = 1 and e = 130]) simp_all
  then show ?thesis by (simp add: to_f32_def)
qed

text \<open>
  Claim C5. On the buffer \<open>[2^-131, -2^-130]\<close>, whose peak \<open>2^-130\<close> is a positive
  (subnormal) float32, peak normalization to 0 dB computes the gain \<open>1 / 2^-130 = 2^130\<close>,
  which is beyond the largest float32: the gain is infinite and the samples come back as
  \<open>+inf\<close> and \<open>-inf\<close>, not at peak 1. On an ordinary buffer the method does what the claim
  says: at -20 dB the samples of \<open>[0.25, -0.5]\<close> are multiplied by the one gain
  \<open>13421773 / 2^26\<close> (0.2 in float32), and the new peak \<open>13421773 / 2^27\<close> is the float32
  nearest to 0.1.
\<close>

theorem peak_quiet_overflows:
  "max_amplitude (Arr1 [Fin (1 / 2 ^ 131), Fin (- (1 / 2 ^ 130))]) = Inr (Fin (1 / 2 ^ 130))
   \<and> normalize_peak 0 (Arr1 [Fin (1 / 2 ^ 131), Fin (- (1 / 2 ^ 130))]) = Inr (Arr1 [PInf, NInf])
   \<and> normalize_peak (- 20) (Arr1 [Fin (1 / 4), Fin (- (1 / 2))])
       = Inr (Arr1 [Fin (13421773 / 2 ^ 28), Fin (- (13421773 / 2 ^ 27))])"
proof -
  have m: "max_amplitude (Arr1 [Fin (1 / 2 ^ 131), Fin (- (1 / 2 ^ 130))]) = Inr (Fin (1 / 2 ^ 130))"
    by (simp add: max_amplitude_def)
  have a: "normalize_peak 0 (Arr1 [Fin (1 / 2 ^ 131), Fin (- (1 / 2 ^ 130))]) = Inr (Arr1 [PInf, NInf])"
    using m to_f32_2_130 by (simp add: normalize_peak_def target_amplitude_0 to_f32_1)
  have m': "max_amplitude (Arr1 [Fin (1 / 4), Fin (- (1 / 2))]) = Inr (Fin (1 / 2))"
    by (simp add: max_amplitude_def)
  have b: "normalize_peak (- 20) (Arr1 [Fin (1 / 4), Fin (- (1 / 2))])
       = Inr (Arr1 [Fin (13421773 / 2 ^ 28), Fin (- (13421773 / 2 ^ 27))])"
    using m' target_amplitude_m20 to_f32_tenth to_f32_fifth to_f32_twentieth to_f32_m_tenth32
    by (simp add: normalize_peak_def)
  from m a b show ?thesis by (simp only: simp_thms)
qed

text \<open>
  Claim C6. On a stereo buffer whose left channel holds the float32 \<open>2^-80\<close> in every
  frame, the squares \<open>2^-160\<close> underflow to zero in float32, so the measured RMS of the
  channel is 0 although its samples are not: the channel gets the gain 1 and stays as it
  is, far from the target RMS. The right channel of RMS 0.5 is scaled by its own gain to
  the target: to 1 at 0 dB, and to the float32 nearest to 0.1 at -20 dB.
\<close>

theorem rms_quiet_channel_unchanged:
  "rms [Fin (1 / 2 ^ 80), Fin (1 / 2 ^ 80)] = Fin 0
   \<and> normalize_rms 0 (Arr2 [[Fin (1 / 2 ^ 80), Fin (1 / 2 ^ 80)], [Fin (1 / 2), Fin (1 / 2)]])
       = Inr (Arr2 [[Fin (1 / 2 ^ 80), Fin (1 / 2 ^ 80)], [Fin 1, Fin 1]])
   \<and> normalize_rms (- 20) (Arr2 [[Fin (1 / 2 ^ 80), Fin (1 / 2 ^ 80)], [Fin (1 / 2), Fin (1 / 2)]])
       = Inr (Arr2 [[Fin (1 / 2 ^ 80), Fin (1 / 2 ^ 80)],
                    [Fin (13421773 / 2 ^ 27), Fin (13421773 / 2 ^ 27)]])"
proof -
  have under: "to_f32 (1 / 2 ^ 160) = Fin 0"
  proof -
    have "round32 (1 / 2 ^ 160) = 0"
      unfolding round32_def
      by (rule round_to_value [where k = "- 160" and q = "- 149" and n = 0])
        (simp_all add: nearest_even_def Let_def)
    then show ?thesis by (simp add: to_f32_def)
  qed
  have quiet: "to_f32 (1 / 2 ^ 80) = Fin (1 / 2 ^ 80)"
    by (rule to_f32_exact, rule round32_exact [where m = 1 and e = "- 80"]) simp_all
  have l: "rms [Fin (1 / 2 ^ 80), Fin (1 / 2 ^ 80)] = Fin 0"
    using under by (simp add: rms_def np_mean_def pairwise_sum_short to_f32_0 round64_0)
  have sq: "sqrt (1 / 4) = 1 / 2" by (simp add: real_sqrt_divide)
  have r: "rms [Fin (1 / 2), Fin (1 / 2)] = Fin (1 / 2)"
    by (simp add: rms_def np_mean_def pairwise_sum_short to_f32_quarter to_f32_half
        round64_quarter sq)
  have a: "normalize_rms 0 (Arr2 [[Fin (1 / 2 ^ 80), Fin (1 / 2 ^ 80)], [Fin (1 / 2), Fin (1 / 2)]])
       = Inr (Arr2 [[Fin (1 / 2 ^ 80), Fin (1 / 2 ^ 80)], [Fin 1, Fin 1]])"
    using l quiet
    by (simp add: normalize_rms_def target_amplitude_0 rms_gain_def r to_f32_1 to_f32_2)
  have b: "normalize_rms (- 20) (Arr2 [[Fin (1 / 2 ^ 80), Fin (1 / 2 ^ 80)], [Fin (1 / 2), Fin (1 / 2)]])
       = Inr (Arr2 [[Fin (1 / 2 ^ 80), Fin (1 / 2 ^ 80)],
                    [Fin (13421773 / 2 ^ 27), Fin (13421773 / 2 ^ 27)]])"
    using l quiet target_amplitude_m20 to_f32_tenth to_f32_fifth to_f32_tenth32
    by (simp add: normalize_rms_def rms_gain_def r)
  from l a b show ?thesis by (simp only: simp_thms)
qed

text \<open>
  The buffer that the sample library calls load is normalized without an exception.
\<close>

lemma normalize_sample:
  "\<exists>n. normalize ''peak'' (- 5) (Arr1 [Fin (1 / 4), Fin (- 1 / 8)]) = Inr (Some n)"
  by (simp add: normalize_def normalize_peak_def max_amplitude_def target_amplitude_m5)

section \<open>Properties of the loop\<close>

lemma fst_encode_mp3: "fst (encode_mp3 e w b out a fs) = fst (encode_mp3 e w b out a {})"
  by (simp add: encode_mp3_def Let_def split: option.splits sum.splits)

lemma fst_save_audio:
  "fst (save_audio e w b out a n fs) = fst (save_audio e w b out a n {})"
  using fst_encode_mp3 [of e w b out _ fs]
  by (simp add: save_audio_def split: option.splits sum.splits)

lemma fst_process_file: "fst (process_file e w p fs) = failure e w p"
  using fst_save_audio [of e w _ _ _ _ fs]
  by (simp add: failure_def process_file_def Let_def split: option.splits sum.splits prod.splits)

lemma is_running_iteration: "is_running (iteration e w n i p st) = is_running st"
  by (simp add: iteration_def Let_def split: option.splits sum.splits prod.splits)

lemma emitted_iteration:
  "emitted (iteration e w n i p st) = emitted st @ pass_events e w n i p"
proof -
  obtain r fs where pf: "process_file e w p (disk st) = (r, fs)"
    by (cases "process_file e w p (disk st)")
  with fst_process_file [of e w p "disk st"] have r: "failure e w p = r" by simp
  show ?thesis
    by (cases r; cases "progress n i") (simp_all add: iteration_def pass_events_def Let_def pf r)
qed

lemma stop_stopped: "\<not> is_running st \<Longrightarrow> stop st = st"
  by (simp add: stop_def)

lemma run_loop_stopped: "\<not> is_running st \<Longrightarrow> run_loop e w sb n i ps st = st"
  by (cases ps) (simp_all add: stop_stopped Let_def)

lemma run_loop_append:
  "run_loop e w sb n i (xs @ ys) st
     = run_loop e w sb n (i + length xs) ys (run_loop e w sb n i xs st)"
proof (induction xs arbitrary: i st)
  case Nil
  then show ?case by simp
next
  case (Cons x xs)
  show ?case
  proof (cases "is_running (if sb i then stop st else st)")
    case True
    then show ?thesis using Cons.IH [of "Suc i"] by (simp add: Let_def)
  next
    case False
    then show ?thesis by (simp add: Let_def run_loop_stopped)
  qed
qed

lemma run_loop_cong:
  "(\<And>j. i \<le> j \<Longrightarrow> j < i + length ps \<Longrightarrow> sb j = sb' j)
     \<Longrightarrow> run_loop e w sb n i ps st = run_loop e w sb' n i ps st"
proof (induction ps arbitrary: i st)
  case Nil
  then show ?case by simp
next
  case (Cons p ps)
  have "sb i = sb' i" using Cons.prems [of i] by simp
  moreover have "run_loop e w sb n (Suc i) ps s = run_loop e w sb' n (Suc i) ps s" for s
    using Cons.prems by (intro Cons.IH) simp_all
  ultimately show ?case by (simp add: Let_def)
qed

lemma run_loop_no_stop:
  "is_running st \<Longrightarrow>
     emitted (run_loop e w (\<lambda>j. False) n i ps st)
       = emitted st @ concat (map (\<lambda>(j, p). pass_events e w n j p) (zip [i..<i + length ps] ps))
   \<and> is_running (run_loop e w (\<lambda>j. False) n i ps st)"
proof (induction ps arbitrary: i st)
  case Nil
  then show ?case by simp
next
  case (Cons p ps)
  have "[i..<i + length (p # ps)] = i # [Suc i..<Suc i + length ps]"
    by (simp add: upt_rec)
  then show ?case
    using Cons.IH [of "iteration e w n i p st" "Suc i"] Cons.prems
    by (simp add: Let_def is_running_iteration emitted_iteration)
qed

lemma labels_append: "labels (xs @ ys) = labels xs @ labels ys"
  by (induction xs rule: labels.induct) simp_all

lemma percents_append: "percents (xs @ ys) = percents xs @ percents ys"
  by (induction xs rule: percents.induct) simp_all

lemma labels_concat: "labels (concat xss) = concat (map labels xss)"
  by (induction xss) (simp_all add: labels_append)

lemma percents_concat: "percents (concat xss) = concat (map percents xss)"
  by (induction xss) (simp_all add: percents_append)

lemma labels_pass:
  "0 < n \<Longrightarrow> labels (pass_events e w n i p)
     = [case failure e w p of Some x \<Rightarrow> error_label (basename e p) x | None \<Rightarrow> basename e p]"
  by (simp add: pass_events_def progress_def split: option.splits)

lemma percents_pass:
  "0 < n \<Longrightarrow> percents (pass_events e w n i p)
     = (if failure e w p = None then [progress_percent n i] else [])"
  by (simp add: pass_events_def progress_def split: option.splits)

lemma zip_upt_nth: "zip [0..<length xs] xs = map (\<lambda>j. (j, xs ! j)) [0..<length xs]"
proof -
  have "zip [0..<length xs] xs = zip [0..<length xs] (map (\<lambda>j. xs ! j) [0..<length xs])"
    by (simp only: map_nth)
  also have "\<dots> = map (\<lambda>j. (j, xs ! j)) [0..<length xs]"
    by (simp add: zip_map2 zip_same_conv_map)
  finally show ?thesis .
qed

lemma concat_singletons: "concat (map (\<lambda>x. [f x]) xs) = map f xs"
  by (induction xs) simp_all

lemma concat_filter: "concat (map (\<lambda>x. if P x then [f x] else []) xs) = map f (filter P xs)"
  by (induction xs) simp_all

lemma run_emitted_no_stop:
  "emitted (run e w (\<lambda>j. False) (init_state fs))
     = concat (map (\<lambda>j. pass_events e w (length (input_files w)) j (input_files w ! j))
                 [0..<length (input_files w)]) @ [Finished]"
proof -
  have "is_running (init_state fs)" by (simp add: init_state_def)
  from run_loop_no_stop [OF this, of e w "length (input_files w)" 0 "input_files w"]
  show ?thesis
    by (simp add: run_def Let_def init_state_def zip_upt_nth comp_def)
qed

lemma run_labels_no_stop:
  "labels (emitted (run e w (\<lambda>j. False) (init_state fs)))
     = map (\<lambda>j. case failure e w (input_files w ! j) of
                   Some x \<Rightarrow> error_label (basename e (input_files w ! j)) x
                 | None \<Rightarrow> basename e (input_files w ! j))
         [0..<length (input_files w)]"
proof -
  let ?n = "length (input_files w)"
  have "map (\<lambda>j. labels (pass_events e w ?n j (input_files w ! j))) [0..<?n]
      = map (\<lambda>j. [case failure e w (input_files w ! j) of
                   Some x \<Rightarrow> error_label (basename e (input_files w ! j)) x
                 | None \<Rightarrow> basename e (input_files w ! j)]) [0..<?n]"
  proof (rule map_cong [OF refl])
    fix j assume "j \<in> set [0..<?n]"
    then have "0 < ?n" by auto
    then show "labels (pass_events e w ?n j (input_files w ! j))
        = [case failure e w (input_files w ! j) of
             Some x \<Rightarrow> error_label (basename e (input_files w ! j)) x
           | None \<Rightarrow> basename e (input_files w ! j)]"
      by (rule labels_pass)
  qed
  then have "concat (map (\<lambda>j. labels (pass_events e w ?n j (input_files w ! j))) [0..<?n])
      = map (\<lambda>j. case failure e w (input_files w ! j) of
                   Some x \<Rightarrow> error_label (basename e (input_files w ! j)) x
                 | None \<Rightarrow> basename e (input_files w ! j)) [0..<?n]"
    by (simp only: concat_singletons)
  moreover have "labels (emitted (run e w (\<lambda>j. False) (init_state fs)))
      = concat (map (\<lambda>j. labels (pass_events e w ?n j (input_files w ! j))) [0..<?n])"
    by (simp add: run_emitted_no_stop labels_append labels_concat comp_def)
  ultimately show ?thesis by (rule back_subst [where P = "\<lambda>r. labels _ = r", rotated])
qed

lemma run_percents_no_stop:
  "percents (emitted (run e w (\<lambda>j. False) (init_state fs)))
     = map (progress_percent (length (input_files w)))
         (filter (\<lambda>j. failure e w (input_files w ! j) = None) [0..<length (input_files w)])"
proof -
  let ?n = "length (input_files w)"
  have "map (\<lambda>j. percents (pass_events e w ?n j (input_files w ! j))) [0..<?n]
      = map (\<lambda>j. if failure e w (input_files w ! j) = None then [progress_percent ?n j] else [])
          [0..<?n]"
  proof (rule map_cong [OF refl])
    fix j assume "j \<in> set [0..<?n]"
    then have "0 < ?n" by auto
    then show "percents (pass_events e w ?n j (input_files w ! j))
        = (if failure e w (input_files w ! j) = None then [progress_percent ?n j] else [])"
      by (rule percents_pass)
  qed
  then have "concat (map (\<lambda>j. percents (pass_events e w ?n j (input_files w ! j))) [0..<?n])
      = map (progress_percent ?n) (filter (\<lambda>j. failure e w (input_files w ! j) = None) [0..<?n])"
    by (simp only: concat_filter)
  moreover have "percents (emitted (run e w (\<lambda>j. False) (init_state fs)))
      = concat (map (\<lambda>j. percents (pass_events e w ?n j (input_files w ! j))) [0..<?n])"
    by (simp add: run_emitted_no_stop percents_append percents_concat comp_def)
  ultimately show ?thesis by (rule back_subst [where P = "\<lambda>r. percents _ = r", rotated])
qed

text \<open>
  Claim C4. In a run without cancellation where the \<^verbatim>\<open>try\<close> block of file \<open>k\<close> raises
  \<open>x\<close> (at whichever step) and that of every other file succeeds, the worker emits one
  \<^verbatim>\<open>file_processed\<close> signal per file, in order: the label \<open>ERROR: <name> - <x>\<close> at
  position \<open>k\<close> and the file's own name at every other position. Every other file also
  gets its progress signal, and the last signal is \<^verbatim>\<open>finished\<close>.
\<close>

theorem one_failure_isolated:
  assumes "k < length (input_files w)"
    and "failure e w (input_files w ! k) = Some x"
    and "\<forall>j < length (input_files w). j \<noteq> k \<longrightarrow> failure e w (input_files w ! j) = None"
  shows "labels (emitted (run e w (\<lambda>j. False) (init_state fs)))
           = (map (basename e) (input_files w))
               [k := ''ERROR: '' @ basename e (input_files w ! k) @ '' - '' @ x]
       \<and> length (labels (emitted (run e w (\<lambda>j. False) (init_state fs)))) = length (input_files w)
       \<and> percents (emitted (run e w (\<lambda>j. False) (init_state fs)))
           = map (progress_percent (length (input_files w)))
               (filter (\<lambda>j. j \<noteq> k) [0..<length (input_files w)])
       \<and> last (emitted (run e w (\<lambda>j. False) (init_state fs))) = Finished"
proof -
  let ?n = "length (input_files w)"
  let ?run = "run e w (\<lambda>j. False) (init_state fs)"
  have l: "labels (emitted ?run)
      = (map (basename e) (input_files w))[k := error_label (basename e (input_files w ! k)) x]"
  proof (rule nth_equalityI)
    show "length (labels (emitted ?run))
        = length ((map (basename e) (input_files w))[k := error_label (basename e (input_files w ! k)) x])"
      by (simp add: run_labels_no_stop)
  next
    fix j assume "j < length (labels (emitted ?run))"
    then have j: "j < ?n" by (simp add: run_labels_no_stop)
    show "labels (emitted ?run) ! j
        = (map (basename e) (input_files w))[k := error_label (basename e (input_files w ! k)) x] ! j"
    proof (cases "j = k")
      case True
      with j assms(2) show ?thesis by (simp add: run_labels_no_stop)
    next
      case False
      with j assms(3) have "failure e w (input_files w ! j) = None" by simp
      with False j show ?thesis by (simp add: run_labels_no_stop)
    qed
  qed
  have "filter (\<lambda>j. failure e w (input_files w ! j) = None) [0..<?n] = filter (\<lambda>j. j \<noteq> k) [0..<?n]"
    using assms by (intro filter_cong) auto
  then have p: "percents (emitted ?run) = map (progress_percent ?n) (filter (\<lambda>j. j \<noteq> k) [0..<?n])"
    by (simp add: run_percents_no_stop)
  have f: "last (emitted ?run) = Finished" by (simp add: run_def Let_def)
  from l p f show ?thesis by (simp add: error_label_def)
qed

lemmas worker_defs = run_def init_state_def sample_env_def sample_worker_def corrupt_env_def
  no_transcoder_env_def iteration_def process_file_def save_audio_def encode_mp3_def
  resample_if_needed_def read_normalized_def progress_def error_label_def stop_def Let_def

lemma pp_2_0: "progress_percent (Suc (Suc 0)) 0 = 50"
  by code_simp
lemma pp_2_1: "progress_percent (Suc (Suc 0)) (Suc 0) = 100"
  by code_simp
lemma pp_3_0: "progress_percent (Suc (Suc (Suc 0))) 0 = 33"
  by code_simp
lemma pp_3_2: "progress_percent (Suc (Suc (Suc 0))) (Suc (Suc 0)) = 100"
  by code_simp

text \<open>
  Claim C2. When the export to mp3 raises, the handler runs with the temporary file still
  on disk: after the run the output directory holds \<open>out/a_temp.wav\<close>.
\<close>

theorem mp3_temp_left_behind:
  "disk (run no_transcoder_env (sample_worker [''a.wav''] ''mp3'') (\<lambda>j. False) (init_state {}))
     = {''out/a_temp.wav''}
   \<and> emitted (run no_transcoder_env (sample_worker [''a.wav''] ''mp3'') (\<lambda>j. False) (init_state {}))
     = [FileProcessed ''ERROR: a.wav - ffmpeg not found'', Finished]"
  using normalize_sample by (auto simp add: worker_defs)

text \<open>
  When the export succeeds, the temporary file is removed and only the mp3 remains.
\<close>

lemma mp3_temp_removed_after_export:
  "disk (run sample_env (sample_worker [''a.wav''] ''mp3'') (\<lambda>j. False) (init_state {}))
     = {''out/a.mp3''}"
  using normalize_sample by (auto simp add: worker_defs)

text \<open>
  Claim C10. On an empty input list the run emits the \<^verbatim>\<open>finished\<close> signal once and
  nothing else: no progress signal and no per-file signal.
\<close>

theorem empty_batch:
  "emitted (run e (w\<lparr>input_files := []\<rparr>) stop_before (init_state fs)) = [Finished]"
  by (simp add: run_def init_state_def)

text \<open>
  Claim C3, as stated, fails: a run cancelled before its second file and a run that
  processes both files end with the same signal, although the flag \<^verbatim>\<open>is_running\<close>
  differs.
\<close>

theorem finished_same_event:
  "last (emitted (run sample_env (sample_worker [''a.wav'', ''b.wav''] ''wav'') (\<lambda>j. j = 1) (init_state {})))
     = last (emitted (run sample_env (sample_worker [''a.wav'', ''b.wav''] ''wav'') (\<lambda>j. False) (init_state {})))
   \<and> \<not> is_running (run sample_env (sample_worker [''a.wav'', ''b.wav''] ''wav'') (\<lambda>j. j = 1) (init_state {}))
   \<and> is_running (run sample_env (sample_worker [''a.wav'', ''b.wav''] ''wav'') (\<lambda>j. False) (init_state {}))"
  using normalize_sample by (auto simp add: worker_defs pp_2_0 pp_2_1)

lemma finished_not_in_pass: "Finished \<notin> set (pass_events e w n i p)"
  by (simp add: pass_events_def split: option.splits sum.splits)

lemma finished_not_in_loop:
  "Finished \<notin> set (emitted st) \<Longrightarrow> Finished \<notin> set (emitted (run_loop e w sb n i ps st))"
proof (induction ps arbitrary: i st)
  case Nil
  then show ?case by simp
next
  case (Cons p ps)
  let ?st1 = "if sb i then stop st else st"
  have e1: "emitted ?st1 = emitted st" by (simp add: stop_def)
  show ?case
  proof (cases "is_running ?st1")
    case True
    have "Finished \<notin> set (emitted (iteration e w n i p ?st1))"
      using Cons.prems by (simp only: emitted_iteration e1) (simp add: finished_not_in_pass)
    from Cons.IH [OF this] True show ?thesis by (simp add: Let_def)
  next
    case False
    with Cons.prems e1 show ?thesis by (simp add: Let_def)
  qed
qed

text \<open>
  Claim C3, amended. Every run, cancelled or not, ends with the one \<^verbatim>\<open>finished\<close>
  signal, which has no payload; no earlier signal of the run is \<^verbatim>\<open>finished\<close>.
\<close>

theorem finished_is_bare:
  "\<exists>evs. emitted (run e w stop_before (init_state fs)) = evs @ [Finished] \<and> Finished \<notin> set evs"
proof -
  have "Finished \<notin> set (emitted (init_state fs))" by (simp add: init_state_def)
  then have "Finished \<notin> set (emitted (run_loop e w stop_before (length (input_files w)) 0
      (input_files w) (init_state fs)))"
    by (rule finished_not_in_loop)
  then show ?thesis by (simp add: run_def Let_def)
qed

lemma length_labels_passes:
  "0 < n \<Longrightarrow> length (labels (concat (map (\<lambda>(j, p). pass_events e w n j p) zs))) = length zs"
  by (induction zs) (auto simp: labels_append labels_pass)

lemma length_percents_passes:
  "0 < n \<Longrightarrow> length (percents (concat (map (\<lambda>(j, p). pass_events e w n j p) zs))) \<le> length zs"
  by (induction zs) (auto simp: percents_append percents_pass)

text \<open>
  Claim C7. When \<^verbatim>\<open>stop\<close> is first called between the passes for files \<open>i - 1\<close> and
  \<open>i\<close>, the loop ends at its next test of the flag: the signals of the run are those of
  the first \<open>i\<close> files (with the progress values of the whole batch) followed by
  \<^verbatim>\<open>finished\<close>. There are \<open>i\<close> per-file signals, at most \<open>i\<close> progress signals, and the
  flag is down at the end.
\<close>

theorem cancel_between_files:
  assumes "i < length (input_files w)" and "stop_before i" and "\<forall>j<i. \<not> stop_before j"
  shows "emitted (run e w stop_before (init_state fs))
           = emitted (run_loop e w (\<lambda>j. False) (length (input_files w)) 0
                        (take i (input_files w)) (init_state fs)) @ [Finished]
       \<and> length (labels (emitted (run e w stop_before (init_state fs)))) = i
       \<and> length (percents (emitted (run e w stop_before (init_state fs)))) \<le> i
       \<and> \<not> is_running (run e w stop_before (init_state fs))"
proof -
  let ?n = "length (input_files w)"
  let ?st0 = "init_state fs"
  let ?pre = "run_loop e w (\<lambda>j. False) ?n 0 (take i (input_files w)) ?st0"
  have r0: "is_running ?st0" by (simp add: init_state_def)
  obtain p rest where dr: "drop i (input_files w) = p # rest"
    using assms(1) by (cases "drop i (input_files w)") simp_all
  have li: "length (take i (input_files w)) = i" using assms(1) by (simp add: min_def)
  have same: "run_loop e w stop_before ?n 0 (take i (input_files w)) ?st0 = ?pre"
    using assms(3) by (intro run_loop_cong) (simp add: li)
  have "run_loop e w stop_before ?n 0 (input_files w) ?st0
      = run_loop e w stop_before ?n 0 (take i (input_files w) @ drop i (input_files w)) ?st0"
    by simp
  also have "\<dots> = run_loop e w stop_before ?n i (p # rest) ?pre"
    by (simp only: run_loop_append li same dr add_0)
  also have "\<dots> = stop ?pre"
    using assms(2) by (simp add: Let_def stop_def)
  finally have loop: "run_loop e w stop_before ?n 0 (input_files w) ?st0 = stop ?pre" .
  have ev: "emitted (run e w stop_before ?st0) = emitted ?pre @ [Finished]"
    by (simp add: run_def Let_def loop stop_def)
  have n: "0 < ?n" using assms(1) by linarith
  note pre = run_loop_no_stop [OF r0, of e w ?n 0 "take i (input_files w)"]
  have ll: "length (labels (emitted ?pre)) = i"
    using pre length_labels_passes [OF n, of e w "zip [0..<i] (take i (input_files w))"] li
    by (simp add: init_state_def)
  have lp: "length (percents (emitted ?pre)) \<le> i"
    using pre length_percents_passes [OF n, of e w "zip [0..<i] (take i (input_files w))"] li
    by (simp add: init_state_def)
  have nr: "\<not> is_running (run e w stop_before ?st0)"
    by (simp add: run_def Let_def loop stop_def)
  from ev ll lp nr show ?thesis by (simp add: labels_append percents_append)
qed

text \<open>
  The theorem on three files with a cancellation after the first.
\<close>

theorem cancel_between_files_witness:
  "emitted (run sample_env (sample_worker [''a.wav'', ''b.wav'', ''c.wav''] ''wav'')
             (\<lambda>j. j = 1) (init_state {}))
     = [ProgressUpdated 33, FileProcessed ''a.wav'', Finished]"
proof -
  have "\<forall>j<1. \<not> (\<lambda>j::nat. j = 1) j" by simp
  from cancel_between_files [of 1 "sample_worker [''a.wav'', ''b.wav'', ''c.wav''] ''wav''"
      "\<lambda>j. j = 1" sample_env "{}"] this
  show ?thesis using normalize_sample by (auto simp add: worker_defs pp_3_0)
qed

text \<open>
  The theorem on three files of which the second is corrupt.
\<close>

theorem one_failure_isolated_witness:
  "failure (corrupt_env ''b.wav'') (sample_worker [''a.wav'', ''b.wav'', ''c.wav''] ''wav'') ''b.wav''
     = Some ''corrupt file''
   \<and> labels (emitted (run (corrupt_env ''b.wav'')
        (sample_worker [''a.wav'', ''b.wav'', ''c.wav''] ''wav'') (\<lambda>j. False) (init_state {})))
     = [''a.wav'', ''ERROR: b.wav - corrupt file'', ''c.wav'']
   \<and> percents (emitted (run (corrupt_env ''b.wav'')
        (sample_worker [''a.wav'', ''b.wav'', ''c.wav''] ''wav'') (\<lambda>j. False) (init_state {})))
     = [33, 100]"
proof -
  let ?w = "sample_worker [''a.wav'', ''b.wav'', ''c.wav''] ''wav''"
  let ?e = "corrupt_env ''b.wav''"
  have k: "1 < length (input_files ?w)" by (simp add: sample_worker_def)
  have fb: "failure ?e ?w (input_files ?w ! 1) = Some ''corrupt file''"
    by (simp add: failure_def worker_defs)
  have fa: "failure ?e ?w ''a.wav'' = None"
    using normalize_sample by (auto simp add: failure_def worker_defs)
  have fc: "failure ?e ?w ''c.wav'' = None"
    using normalize_sample by (auto simp add: failure_def worker_defs)
  have others: "\<forall>j<length (input_files ?w). j \<noteq> 1 \<longrightarrow> failure ?e ?w (input_files ?w ! j) = None"
  proof (intro allI impI)
    fix j assume "j < length (input_files ?w)" and "j \<noteq> 1"
    then have "j = 0 \<or> j = 2" by (auto simp: sample_worker_def)
    then show "failure ?e ?w (input_files ?w ! j) = None"
      using fa fc by (auto simp: sample_worker_def)
  qed
  have upt: "[0..<3] = [0, 1, 2]" by (simp add: upt_rec)
  from one_failure_isolated [OF k fb others, of "{}"] fb
  show ?thesis
    by (simp add: sample_worker_def corrupt_env_def sample_env_def upt pp_3_0 pp_3_2)
qed

text \<open>
  Claim C9. The progress signals of a run without cancellation are those of the files
  whose \<^verbatim>\<open>try\<close> block succeeds, in order, so the last one is that of the last such
  file. A failing pass emits its error label and no progress signal. A run of two files
  of which the second fails runs to its end with 50 as the last progress value.
\<close>

theorem progress_only_on_success:
  "percents (emitted (run e w (\<lambda>j. False) (init_state fs)))
     = map (progress_percent (length (input_files w)))
         (filter (\<lambda>j. failure e w (input_files w ! j) = None) [0..<length (input_files w)])
   \<and> emitted (iteration (corrupt_env ''b.wav'') (sample_worker [''a.wav'', ''b.wav''] ''wav'') 2 1
        ''b.wav'' (init_state {}))
     = [FileProcessed ''ERROR: b.wav - corrupt file'']
   \<and> emitted (run (corrupt_env ''b.wav'') (sample_worker [''a.wav'', ''b.wav''] ''wav'')
        (\<lambda>j. False) (init_state {}))
     = [ProgressUpdated 50, FileProcessed ''a.wav'',
        FileProcessed ''ERROR: b.wav - corrupt file'', Finished]"
proof -
  have "emitted (run (corrupt_env ''b.wav'') (sample_worker [''a.wav'', ''b.wav''] ''wav'')
        (\<lambda>j. False) (init_state {}))
     = [ProgressUpdated 50, FileProcessed ''a.wav'',
        FileProcessed ''ERROR: b.wav - corrupt file'', Finished]"
    using normalize_sample by (auto simp add: worker_defs pp_2_0)
  moreover have "emitted (iteration (corrupt_env ''b.wav'') (sample_worker [''a.wav'', ''b.wav''] ''wav'') 2 1
        ''b.wav'' (init_state {}))
     = [FileProcessed ''ERROR: b.wav - corrupt file'']"
    by (simp add: worker_defs)
  ultimately show ?thesis using run_percents_no_stop [of e w fs] by (simp only:)
qed



section \<open>Properties of the progress percentage\<close>

lemma powi_bitlen:
  assumes "0 < a"
  shows "(2::rat) powi (bitlen a - 1) \<le> of_int a \<and> of_int a < (2::rat) powi bitlen a"
proof -
  from bitlen_bounds [OF assms]
  have lo: "2 ^ nat (bitlen a - 1) \<le> a" and hi: "a < 2 ^ nat (bitlen a)" by simp_all
  have ge: "1 \<le> bitlen a" using assms by (simp add: bitlen_alt_def)
  from lo have "(of_int (2 ^ nat (bitlen a - 1)) :: rat) \<le> of_int a"
    by (simp only: of_int_le_iff)
  moreover from hi have "(of_int a :: rat) < of_int (2 ^ nat (bitlen a))"
    by (simp only: of_int_less_iff)
  ultimately show ?thesis using ge by (simp add: power_int_def)
qed

lemma ilog2_bounds:
  assumes "0 < q"
  shows "2 powi ilog2 q \<le> q \<and> q < 2 powi (ilog2 q + 1)"
proof -
  obtain a b where ab: "quotient_of q = (a, b)" by (cases "quotient_of q")
  then have b: "0 < b" by (rule quotient_of_denom_pos)
  from ab have q: "q = of_int a / of_int b" by (rule quotient_of_div)
  with assms b have a: "0 < a" by (simp add: zero_less_divide_iff)
  let ?la = "bitlen a" and ?lb = "bitlen b"
  note A = powi_bitlen [OF a] and B = powi_bitlen [OF b]
  have bpos: "(0::rat) < of_int b" using b by simp
  have p0: "(0::rat) < 2 powi k" for k by simp
  have up: "q < 2 powi (?la - ?lb + 1)"
  proof -
    have "q \<le> of_int a / 2 powi (?lb - 1)"
      unfolding q
    proof (rule divide_left_mono)
      show "2 powi (?lb - 1) \<le> (of_int b :: rat)" using B by simp
      show "(0::rat) \<le> of_int a" using a by simp
      show "(0::rat) < of_int b * 2 powi (?lb - 1)" using bpos by (intro mult_pos_pos) simp_all
    qed
    also have "\<dots> < 2 powi ?la / 2 powi (?lb - 1)"
      using A by (intro divide_strict_right_mono) simp_all
    also have "\<dots> = 2 powi (?la - (?lb - 1))" by (simp add: power_int_diff)
    finally show ?thesis by (simp add: algebra_simps)
  qed
  have lo: "2 powi (?la - ?lb - 1) \<le> q"
  proof -
    have "(2::rat) powi ((?la - 1) - ?lb) = 2 powi (?la - 1) / 2 powi ?lb"
      by (rule power_int_diff) simp
    moreover have "?la - ?lb - 1 = (?la - 1) - ?lb" by simp
    ultimately have "(2::rat) powi (?la - ?lb - 1) = 2 powi (?la - 1) / 2 powi ?lb"
      by (simp only:)
    also have "\<dots> \<le> of_int a / 2 powi ?lb"
      using A by (intro divide_right_mono) simp_all
    also have "\<dots> \<le> of_int a / of_int b"
    proof (rule divide_left_mono)
      show "(of_int b :: rat) \<le> 2 powi ?lb" using B by simp
      show "(0::rat) \<le> of_int a" using a by simp
      show "(0::rat) < 2 powi ?lb * of_int b" using bpos by (intro mult_pos_pos) simp_all
    qed
    finally show ?thesis by (simp add: q)
  qed
  show ?thesis
  proof (cases "2 powi (?la - ?lb) \<le> q")
    case True
    then have "ilog2 q = ?la - ?lb" by (simp add: ilog2_def ab)
    with True up show ?thesis by simp
  next
    case False
    then have "ilog2 q = ?la - ?lb - 1" by (simp add: ilog2_def ab)
    with False lo show ?thesis by simp
  qed
qed

lemma rne_error: "\<bar>of_int (rne x) - x\<bar> \<le> 1 / 2"
proof -
  have f1: "of_int \<lfloor>x\<rfloor> \<le> x" and f2: "x < of_int \<lfloor>x\<rfloor> + 1" by linarith+
  show ?thesis
    unfolding rne_def Let_def using f1 f2 by (simp add: abs_if split: if_splits; linarith)
qed

lemma round53_error:
  assumes "0 < q"
  shows "\<bar>round53 q - q\<bar> \<le> q / 2 ^ 53"
proof -
  let ?e = "ilog2 q - 52"
  let ?s = "(2::rat) powi ?e"
  have s: "0 < ?s" by simp
  have r: "round53 q = of_int (rne (q / ?s)) * ?s"
    using assms by (simp add: round53_def)
  have "\<bar>round53 q - q\<bar> = \<bar>of_int (rne (q / ?s)) - q / ?s\<bar> * ?s"
  proof -
    have "round53 q - q = (of_int (rne (q / ?s)) - q / ?s) * ?s"
      using s by (simp add: r algebra_simps)
    then show ?thesis using s by (simp add: abs_mult)
  qed
  also have "\<dots> \<le> 1 / 2 * ?s"
    using rne_error [of "q / ?s"] s by (intro mult_right_mono) simp_all
  also have "\<dots> = 2 powi ilog2 q / 2 ^ 53"
  proof -
    have "(2::rat) powi (ilog2 q - 52) = 2 powi ilog2 q / 2 powi 52"
      by (simp add: power_int_diff)
    then show ?thesis by simp
  qed
  also have "\<dots> \<le> q / 2 ^ 53"
    using ilog2_bounds [OF assms] by (intro divide_right_mono) simp_all
  finally show ?thesis .
qed

lemma round53_pos:
  assumes "0 < q"
  shows "0 < round53 q"
proof -
  have "q / 2 ^ 53 < q" using assms by (simp add: field_simps)
  with round53_error [OF assms] show ?thesis by linarith
qed

lemma double_percent_error:
  assumes "0 < x" and "x \<le> 1"
  shows "\<bar>round53 (round53 x * 100) - 100 * x\<bar> \<le> 300 / 2 ^ 53"
proof -
  define u :: rat where "u = 1 / 2 ^ 53"
  define xh where "xh = round53 x"
  define y where "y = xh * 100"
  define yh where "yh = round53 y"
  have u: "0 < u" "u \<le> 1" by (simp_all add: u_def)
  have "\<bar>xh - x\<bar> \<le> x * u"
    using round53_error [OF assms(1)] by (simp add: u_def xh_def)
  moreover have "x * u \<le> 1 * u" using assms(2) u(1) by (intro mult_right_mono) simp_all
  ultimately have ex: "\<bar>xh - x\<bar> \<le> u" by simp
  have xh: "0 < xh" unfolding xh_def using assms(1) by (rule round53_pos)
  then have y: "0 < y" by (simp add: y_def)
  have "xh \<le> 2" using ex assms(2) u(2) by linarith
  then have y200: "y \<le> 200" by (simp add: y_def)
  have "\<bar>yh - y\<bar> \<le> y * u"
    using round53_error [OF y] by (simp add: u_def yh_def)
  moreover have "y * u \<le> 200 * u" using y200 u(1) by (intro mult_right_mono) simp_all
  ultimately have ey: "\<bar>yh - y\<bar> \<le> 200 * u" by simp
  have ep: "\<bar>y - 100 * x\<bar> \<le> 100 * u" using ex unfolding y_def by linarith
  from ey ep have "\<bar>yh - 100 * x\<bar> \<le> 300 * u" by linarith
  then show ?thesis by (simp add: yh_def y_def xh_def u_def)
qed

text \<open>
  Claim C8, amended. For a batch of at most \<open>2 ^ 44\<close> files, the progress value of the file
  at index \<open>i\<close> is the percentage \<open>100 * (i + 1) / n\<close> truncated toward zero to an integer
  whenever that percentage is not a whole number (\<^verbatim>\<open>int\<close> truncates; it does not round to
  the nearest integer), and it is 100 for the last file.
\<close>

theorem progress_truncates:
  assumes "i < n" and "n \<le> 2 ^ 44"
  shows "(\<not> int n dvd 100 * (int i + 1) \<longrightarrow> progress n i = Inr (100 * (int i + 1) div int n))
       \<and> (i + 1 = n \<longrightarrow> progress n i = Inr 100)"
proof -
  define x :: rat where "x = of_nat (i + 1) / of_nat n"
  define yh where "yh = round53 (round53 x * 100)"
  define P where "P = 100 * (int i + 1) div int n"
  define e :: rat where "e = 300 / 2 ^ 53"
  define m :: rat where "m = 1 / of_nat n"
  have n: "0 < n" using assms(1) by simp
  have nr: "(0::rat) < of_nat n" using n by simp
  have x0: "0 < x" using n by (simp add: x_def)
  have x1: "x \<le> 1" using assms(1) by (simp add: x_def divide_le_eq_1)
  have err: "\<bar>yh - 100 * x\<bar> \<le> e"
    unfolding yh_def e_def using x0 x1 by (rule double_percent_error)
  have small: "e < m"
  proof -
    have "(of_nat n :: rat) \<le> of_nat (2 ^ 44)" using assms(2) by (simp only: of_nat_le_iff)
    then have "(of_nat n :: rat) \<le> 2 ^ 44" by simp
    then have "300 * (of_nat n :: rat) < 2 ^ 53" by simp
    then show ?thesis using nr by (simp add: field_simps e_def m_def)
  qed
  have p_eq: "100 * x = of_int (100 * (int i + 1)) / of_int (int n)" by (simp add: x_def)
  have split: "100 * (int i + 1) = int n * P + 100 * (int i + 1) mod int n"
    by (simp add: P_def)
  have pp: "progress_percent n i = \<lfloor>yh\<rfloor>"
    by (simp only: progress_percent_def yh_def x_def)
  have pr: "progress n i = Inr (progress_percent n i)" using n by (simp add: progress_def)
  have hi_p: "100 * x \<le> of_int P + 1 - m"
  proof -
    have "100 * (int i + 1) mod int n \<le> int n - 1"
      using n by simp
    with split have "100 * (int i + 1) \<le> int n * P + int n - 1" by linarith
    then have "(of_int (100 * (int i + 1)) :: rat) \<le> of_int (int n * P + int n - 1)"
      by (simp only: of_int_le_iff)
    then have "(of_int (100 * (int i + 1)) :: rat) / of_int (int n)
        \<le> of_int (int n * P + int n - 1) / of_int (int n)"
      using nr by (intro divide_right_mono) simp_all
    also have "\<dots> = of_int P + 1 - m"
      using nr by (simp add: field_simps m_def)
    finally show ?thesis by (simp only: p_eq)
  qed
  have hi: "yh < of_int P + 1" using err small hi_p by linarith
  have upper: "\<lfloor>yh\<rfloor> < P + 1"
  proof -
    from hi have "yh < of_int (P + 1)" by simp
    then show ?thesis by (simp only: floor_less_iff)
  qed
  have first: "progress n i = Inr P" if nd: "\<not> int n dvd 100 * (int i + 1)"
  proof -
    from nd have "100 * (int i + 1) mod int n \<noteq> 0" by (simp add: dvd_eq_mod_eq_0)
    moreover have "0 \<le> 100 * (int i + 1) mod int n" using n by simp
    ultimately have "1 \<le> 100 * (int i + 1) mod int n" by linarith
    with split have "int n * P + 1 \<le> 100 * (int i + 1)" by linarith
    then have "(of_int (int n * P + 1) :: rat) \<le> of_int (100 * (int i + 1))"
      by (simp only: of_int_le_iff)
    then have "(of_int (int n * P + 1) :: rat) / of_int (int n)
        \<le> of_int (100 * (int i + 1)) / of_int (int n)"
      using nr by (intro divide_right_mono) simp_all
    moreover have "(of_int (int n * P + 1) :: rat) / of_int (int n) = of_int P + m"
      using nr by (simp add: field_simps m_def)
    ultimately have lo_p: "of_int P + m \<le> 100 * x" by (simp only: p_eq)
    have "of_int P \<le> yh" using err small lo_p by linarith
    then have "P \<le> \<lfloor>yh\<rfloor>" by (simp only: le_floor_iff)
    with upper have "\<lfloor>yh\<rfloor> = P" by linarith
    with pp pr show ?thesis by simp
  qed
  have last: "progress n i = Inr 100" if "i + 1 = n"
  proof -
    have one: "round53 1 = 1" by code_simp
    have hundred: "round53 100 = 100" by code_simp
    from that nr have "x = 1" by (simp add: x_def)
    then have "yh = 100" by (simp add: yh_def one hundred)
    with pp pr show ?thesis by simp
  qed
  from first last show ?thesis by (simp only: P_def) blast
qed

text \<open>
  The theorem at the second of 3 files, where the percentage 66.67 is truncated to 66,
  and at the last of 3 files.
\<close>

theorem progress_truncates_witness:
  "\<not> int 3 dvd 100 * (int 1 + 1) \<and> progress 3 1 = Inr 66 \<and> progress 3 2 = Inr 100"
  using progress_truncates [of 1 3] progress_truncates [of 2 3] by simp

text \<open>
  Claim C8, as stated, fails: for the second of 3 files the progress value is 66 while
  the percentage 66.67 rounds to 67, and for file 29 of 100 it is 28 while the
  percentage is 29.
\<close>

theorem progress_not_rounded:
  "progress_percent 3 1 = 66 \<and> round (100 * (1 + 1) / 3 :: rat) = 67
   \<and> progress_percent 100 28 = 28 \<and> round (100 * (28 + 1) / 100 :: rat) = 29"
  by code_simp

end
